theory Spec2Isabelle
  imports Main "HOL-Library.Sublist"
begin

section \<open>The results loader of plot.py\<close>

text \<open>
  The script reads \<^verbatim>\<open>results.cache\<close> line by line (plot.py, lines 64 to 90):
  \<^verbatim>\<open>
  results = []
  with open("results.cache", "r") as f:
      for line in f:
          parts = line.split()
          if len(parts) > 9:
              entry = dict()
              entry["params"] = parse_parameters(parts[0])
              entry["efficiency"] = float(parts[5])
              ...
              entry["stddev_ts"] = float(parts[13])
              entry["cost.efficiency"] = float(parts[1])
              ...
              entry["cost"] = entry["cost.efficiency"] + entry["cost.safety"] + \
                  entry["cost.accel"] + entry["cost.steer"]
              results.append(entry)
          else:
              continue
  \<close>
  The file is a list of lines. A \<^typ>\<open>char\<close> stands for a code point below 256.
  Every exception of the Python is a value \<open>Inl e\<close>; nothing in the script catches one,
  so the first \<open>Inl\<close> ends the load.
\<close>

subsection \<open>Exceptions\<close>

text \<open>\<open>OtherError\<close> stands for any other exception that \<^verbatim>\<open>parse_parameters\<close> may
  raise.\<close>

datatype error = IndexError | ValueError | OtherError

definition and_then :: "error + 'a \<Rightarrow> ('a \<Rightarrow> error + 'b) \<Rightarrow> error + 'b" where
  "and_then m f = (case m of Inl e \<Rightarrow> Inl e | Inr x \<Rightarrow> f x)"

subsection \<open>\<^verbatim>\<open>str.split()\<close> with no argument\<close>

text \<open>
  Python splits at runs of whitespace and returns no empty field. The whitespace code
  points below 256 are 9 to 13, 28 to 32, 133 and 160.
\<close>

definition isspace :: "char \<Rightarrow> bool" where
  "isspace c =
     (let n = (of_char c :: nat)
      in (9 \<le> n \<and> n \<le> 13) \<or> (28 \<le> n \<and> n \<le> 32) \<or> n = 133 \<or> n = 160)"

text \<open>\<open>split_from cur s\<close>: the fields of \<open>s\<close>, where \<open>cur\<close> holds the characters of
  the field being read, last one first.\<close>

fun split_from :: "string \<Rightarrow> string \<Rightarrow> string list" where
  "split_from cur [] = (if cur = [] then [] else [rev cur])"
| "split_from cur (c # cs) =
     (if isspace c
      then (if cur = [] then split_from [] cs else rev cur # split_from [] cs)
      else split_from (c # cur) cs)"

definition split :: "string \<Rightarrow> string list" where
  "split line = split_from [] line"

subsection \<open>Records\<close>

text \<open>
  An entry is the dictionary the loop builds: the value under \<^verbatim>\<open>"params"\<close> is what
  \<^verbatim>\<open>parse_parameters\<close> returned, every other key holds a float. The keys keep the
  names of the source.
\<close>

record ('p, 'f) entry =
  params :: 'p
  metrics :: "string \<rightharpoonup> 'f"

subsection \<open>One line\<close>

text \<open>\<^verbatim>\<open>parts[i]\<close> raises IndexError out of range.\<close>

definition field :: "string list \<Rightarrow> nat \<Rightarrow> error + string" where
  "field parts i = (if i < length parts then Inr (parts ! i) else Inl IndexError)"

text \<open>
  \<^verbatim>\<open>float(parts[i])\<close>: the index is evaluated first, then the builtin \<^verbatim>\<open>float\<close>, which
  raises ValueError on a string that is no float literal. The builtin is the parameter
  \<open>float\<close> (\<open>None\<close> where it raises); its values have an addition and nothing else is
  asked of them.
\<close>

definition float_field :: "(string \<Rightarrow> 'f option) \<Rightarrow> string list \<Rightarrow> nat \<Rightarrow> error + 'f" where
  "float_field float parts i =
     and_then (field parts i)
       (\<lambda>s. case float s of None \<Rightarrow> Inl ValueError | Some v \<Rightarrow> Inr v)"

text \<open>
  The body of the \<^verbatim>\<open>if\<close>, in the order of the source's statements.
  \<^verbatim>\<open>parse_parameters\<close> is imported from the module \<^verbatim>\<open>common_plot\<close>, which is not part
  of the sources: it is a parameter, and it may raise.
\<close>

definition load_entry ::
  "(string \<Rightarrow> error + 'p) \<Rightarrow> (string \<Rightarrow> 'f option) \<Rightarrow> string list
     \<Rightarrow> error + ('p, 'f :: plus) entry" where
  "load_entry parse_parameters float parts =
     and_then (field parts 0) (\<lambda>token.
     and_then (parse_parameters token) (\<lambda>ps.
     and_then (float_field float parts 5) (\<lambda>efficiency.
     and_then (float_field float parts 6) (\<lambda>safety.
     and_then (float_field float parts 7) (\<lambda>ud.
     and_then (float_field float parts 8) (\<lambda>cc.
     and_then (float_field float parts 9) (\<lambda>mean_ts.
     and_then (float_field float parts 10) (\<lambda>ts_95.
     and_then (float_field float parts 11) (\<lambda>ts_997.
     and_then (float_field float parts 12) (\<lambda>max_ts.
     and_then (float_field float parts 13) (\<lambda>stddev_ts.
     and_then (float_field float parts 1) (\<lambda>cost_efficiency.
     and_then (float_field float parts 2) (\<lambda>cost_safety.
     and_then (float_field float parts 3) (\<lambda>cost_accel.
     and_then (float_field float parts 4) (\<lambda>cost_steer.
     Inr \<lparr>params = ps,
          metrics = [''efficiency'' \<mapsto> efficiency, ''safety'' \<mapsto> safety, ''ud'' \<mapsto> ud,
            ''cc'' \<mapsto> cc, ''mean_ts'' \<mapsto> mean_ts, ''95_ts'' \<mapsto> ts_95,
            ''997_ts'' \<mapsto> ts_997, ''max_ts'' \<mapsto> max_ts, ''stddev_ts'' \<mapsto> stddev_ts,
            ''cost.efficiency'' \<mapsto> cost_efficiency, ''cost.safety'' \<mapsto> cost_safety,
            ''cost.accel'' \<mapsto> cost_accel, ''cost.steer'' \<mapsto> cost_steer,
            ''cost'' \<mapsto> cost_efficiency + cost_safety + cost_accel + cost_steer]\<rparr>
     )))))))))))))))"

subsection \<open>The loop\<close>

text \<open>\<open>load_lines\<close> is the \<^verbatim>\<open>for\<close> loop with \<open>results\<close> as the list built so far;
  \<open>load_results\<close> starts it from the empty list.\<close>

fun load_lines ::
  "(string \<Rightarrow> error + 'p) \<Rightarrow> (string \<Rightarrow> 'f option) \<Rightarrow> string list
     \<Rightarrow> ('p, 'f :: plus) entry list \<Rightarrow> error + ('p, 'f) entry list" where
  "load_lines parse_parameters float [] results = Inr results"
| "load_lines parse_parameters float (line # rest) results =
     (let parts = split line
      in if length parts > 9
         then and_then (load_entry parse_parameters float parts)
                (\<lambda>entry. load_lines parse_parameters float rest (results @ [entry]))
         else load_lines parse_parameters float rest results)"

definition load_results ::
  "(string \<Rightarrow> error + 'p) \<Rightarrow> (string \<Rightarrow> 'f option) \<Rightarrow> string list
     \<Rightarrow> error + ('p, 'f :: plus) entry list" where
  "load_results parse_parameters float lines = load_lines parse_parameters float lines []"

subsection \<open>Well-formed lines\<close>

text \<open>
  The cache format of the specification (section 6) has fourteen fields: the parameter
  token and thirteen floats. \<open>well_formed\<close> says so of the fields of a line, for a given
  \<^verbatim>\<open>parse_parameters\<close> and \<^verbatim>\<open>float\<close>; longer lines count, since the loop never looks
  beyond field 13.
\<close>

definition well_formed ::
  "(string \<Rightarrow> error + 'p) \<Rightarrow> (string \<Rightarrow> 'f option) \<Rightarrow> string list \<Rightarrow> bool" where
  "well_formed parse_parameters float parts \<longleftrightarrow>
     14 \<le> length parts \<and> \<not> isl (parse_parameters (parts ! 0)) \<and>
     list_all (\<lambda>i. float (parts ! i) \<noteq> None) [1..<14]"

text \<open>\<open>entry_of ps v\<close> is the dictionary of a line whose parameter token parsed to
  \<open>ps\<close> and whose field \<open>i\<close> parsed to \<open>v i\<close>; the proofs compare the loop with
  it.\<close>

definition entry_of :: "'p \<Rightarrow> (nat \<Rightarrow> 'f :: plus) \<Rightarrow> ('p, 'f) entry" where
  "entry_of ps v =
     \<lparr>params = ps,
      metrics = [''efficiency'' \<mapsto> v 5, ''safety'' \<mapsto> v 6, ''ud'' \<mapsto> v 7,
        ''cc'' \<mapsto> v 8, ''mean_ts'' \<mapsto> v 9, ''95_ts'' \<mapsto> v 10,
        ''997_ts'' \<mapsto> v 11, ''max_ts'' \<mapsto> v 12, ''stddev_ts'' \<mapsto> v 13,
        ''cost.efficiency'' \<mapsto> v 1, ''cost.safety'' \<mapsto> v 2,
        ''cost.accel'' \<mapsto> v 3, ''cost.steer'' \<mapsto> v 4,
        ''cost'' \<mapsto> v 1 + v 2 + v 3 + v 4]\<rparr>"

subsection \<open>Sample callees\<close>

text \<open>
  To run the loop on sample lines the two callees need values. \<open>Inr\<close> stands for a
  \<^verbatim>\<open>parse_parameters\<close> that returns its token and never raises. \<open>digits_float\<close> stands
  for \<^verbatim>\<open>float\<close> on the sample lines: it reads a string of decimal digits and rejects
  every other string. The sample lines hold digit strings, which \<^verbatim>\<open>float\<close> accepts, and
  the word \<^verbatim>\<open>abc\<close>, which it rejects with ValueError.
\<close>

definition isdigit :: "char \<Rightarrow> bool" where
  "isdigit c = (48 \<le> (of_char c :: nat) \<and> (of_char c :: nat) \<le> 57)"

definition digits_float :: "string \<Rightarrow> int option" where
  "digits_float s =
     (if s \<noteq> [] \<and> list_all isdigit s
      then Some (foldl (\<lambda>n c. 10 * n + (of_char c - 48)) 0 s)
      else None)"

section \<open>Filtering, modelled from the specification\<close>

text \<open>
  \<^verbatim>\<open>filter_extra\<close> is imported from \<^verbatim>\<open>common_plot\<close>, and the script only builds
  the condition lists it is given. The definitions below follow sections 3 and 4.2 of
  the specification.
\<close>

subsection \<open>Parameter values and conditions\<close>

text \<open>
  Modelled from the spec: the values of \<^verbatim>\<open>params\<close>, missing with \<^verbatim>\<open>parse_parameters\<close>.
  A value is a string or a number (integer or float); the numbers are one linearly
  ordered type \<open>'n\<close>. A condition is a pair of a key and an expected value.
\<close>

datatype 'n pvalue = Str string | Num 'n

type_synonym 'n condition = "string \<times> 'n pvalue"

text \<open>
  Modelled from the spec: the canonical form that equality compares, missing with the
  matcher of \<^verbatim>\<open>common_plot\<close>. A string is its own form, a number is stringified by
  \<open>str\<close>, a parameter as Python's \<^verbatim>\<open>str\<close> is for the loader's \<^verbatim>\<open>float\<close>.
\<close>

definition canonical :: "('n \<Rightarrow> string) \<Rightarrow> 'n pvalue \<Rightarrow> string" where
  "canonical str v = (case v of Str s \<Rightarrow> s | Num n \<Rightarrow> str n)"

text \<open>
  Modelled from the spec: one condition of the matcher of \<^verbatim>\<open>common_plot\<close>
  (section 4.2). A key that starts with \<^verbatim>\<open>max.\<close> is stripped of it and asks for
  \<^verbatim>\<open>params[inner_key] <= expected\<close>, compared as numbers; a missing key or a value that
  is no number fails the match. Any other key asks for equal canonical forms; a missing
  key fails the match (section 7).
\<close>

definition holds ::
  "('n :: linorder \<Rightarrow> string) \<Rightarrow> (string \<rightharpoonup> 'n pvalue) \<Rightarrow> 'n condition \<Rightarrow> bool" where
  "holds str ps c =
     (let key = fst c; expected = snd c
      in if take 4 key = ''max.''
         then (case (ps (drop 4 key), expected) of
                 (Some (Num v), Num bound) \<Rightarrow> v \<le> bound
               | _ \<Rightarrow> False)
         else (case ps key of
                 None \<Rightarrow> False
               | Some v \<Rightarrow> canonical str v = canonical str expected))"

text \<open>
  Modelled from the spec: \<^verbatim>\<open>matches(record, conditions)\<close> of section 4.2, missing with
  \<^verbatim>\<open>common_plot\<close>. All pairs must hold; the first failing pair decides; the empty list
  matches every record.
\<close>

fun matches ::
  "('n :: linorder \<Rightarrow> string) \<Rightarrow> (string \<rightharpoonup> 'n pvalue, 'f) entry \<Rightarrow> 'n condition list
     \<Rightarrow> bool" where
  "matches str r [] = True"
| "matches str r (c # cs) = (if holds str (params r) c then matches str r cs else False)"

subsection \<open>The bulk filter\<close>

text \<open>
  Modelled from the spec: \<^verbatim>\<open>filter_extra(results, filters)\<close>, missing with
  \<^verbatim>\<open>common_plot\<close>; section 4.2 calls it \<^verbatim>\<open>filter\<close>. It walks the records once and keeps
  each match where it stands.
\<close>

fun filter_extra ::
  "('n :: linorder \<Rightarrow> string) \<Rightarrow> (string \<rightharpoonup> 'n pvalue, 'f) entry list \<Rightarrow> 'n condition list
     \<Rightarrow> (string \<rightharpoonup> 'n pvalue, 'f) entry list" where
  "filter_extra str [] conditions = []"
| "filter_extra str (r # rs) conditions =
     (if matches str r conditions
      then r # filter_extra str rs conditions
      else filter_extra str rs conditions)"

section \<open>Properties of the loader\<close>

subsection \<open>Sequencing\<close>

lemma and_then_Inl [simp]: "and_then (Inl e) f = Inl e"
  by (simp add: and_then_def)

lemma and_then_Inr [simp]: "and_then (Inr x) f = f x"
  by (simp add: and_then_def)

lemma and_then_eq_Inr: "and_then m f = Inr y \<longleftrightarrow> (\<exists>x. m = Inr x \<and> f x = Inr y)"
  by (cases m) simp_all

lemma and_then_eq_Inl:
  "and_then m f = Inl e \<longleftrightarrow> m = Inl e \<or> (\<exists>x. m = Inr x \<and> f x = Inl e)"
  by (cases m) simp_all

subsection \<open>One field\<close>

lemma float_field_eq_Inr:
  "float_field float parts i = Inr v \<longleftrightarrow> i < length parts \<and> float (parts ! i) = Some v"
  by (auto simp: float_field_def field_def split: option.splits)

lemma float_field_Inl:
  "float_field float parts i = Inl e \<Longrightarrow> e = IndexError \<or> e = ValueError"
  by (auto simp: float_field_def field_def split: option.splits if_splits)

subsection \<open>One line\<close>

lemma load_entry_Inr:
  assumes len: "14 \<le> length parts" and ps: "pp (parts ! 0) = Inr ps"
    and v: "\<And>i. 1 \<le> i \<Longrightarrow> i \<le> 13 \<Longrightarrow> pf (parts ! i) = Some (v i)"
  shows "load_entry pp pf parts = Inr (entry_of ps v)"
proof -
  have f: "float_field pf parts i = Inr (v i)" if "1 \<le> i" "i \<le> 13" for i
    using that len v by (simp add: float_field_eq_Inr)
  have z: "field parts 0 = Inr (parts ! 0)"
    using len by (auto simp: field_def)
  show ?thesis
    unfolding load_entry_def entry_of_def by (simp only: z ps and_then_Inr) (simp add: f)
qed

lemma load_entry_InrD:
  assumes "load_entry pp pf parts = Inr e"
  shows "14 \<le> length parts \<and> (\<exists>ps. pp (parts ! 0) = Inr ps \<and>
           (\<forall>i. 1 \<le> i \<and> i \<le> 13 \<longrightarrow> pf (parts ! i) \<noteq> None) \<and>
           e = entry_of ps (\<lambda>i. the (pf (parts ! i))))"
proof -
  from assms obtain tok ps a5 a6 a7 a8 a9 a10 a11 a12 a13 a1 a2 a3 a4 where
    t: "field parts 0 = Inr tok" and p: "pp tok = Inr ps"
    and a: "float_field pf parts 5 = Inr a5" "float_field pf parts 6 = Inr a6"
      "float_field pf parts 7 = Inr a7" "float_field pf parts 8 = Inr a8"
      "float_field pf parts 9 = Inr a9" "float_field pf parts 10 = Inr a10"
      "float_field pf parts 11 = Inr a11" "float_field pf parts 12 = Inr a12"
      "float_field pf parts 13 = Inr a13" "float_field pf parts 1 = Inr a1"
      "float_field pf parts 2 = Inr a2" "float_field pf parts 3 = Inr a3"
      "float_field pf parts 4 = Inr a4"
    unfolding load_entry_def and_then_eq_Inr by blast
  from a have len: "14 \<le> length parts" by (simp add: float_field_eq_Inr)
  from t have tok: "tok = parts ! 0" by (simp add: field_def split: if_splits)
  from a have "list_all (\<lambda>i. pf (parts ! i) \<noteq> None) [1..<14]"
    by (simp add: float_field_eq_Inr upt_rec eval_nat_numeral)
  then have some: "pf (parts ! i) \<noteq> None" if "1 \<le> i" "i \<le> 13" for i
    using that by (simp add: list_all_iff)
  have "load_entry pp pf parts = Inr (entry_of ps (\<lambda>i. the (pf (parts ! i))))"
    using len p some unfolding tok by (intro load_entry_Inr) auto
  with assms have "e = entry_of ps (\<lambda>i. the (pf (parts ! i)))" by simp
  with len p some tok show ?thesis by blast
qed


lemma well_formed_iff:
  "well_formed pp pf parts \<longleftrightarrow>
     14 \<le> length parts \<and> (\<exists>ps. pp (parts ! 0) = Inr ps) \<and>
     (\<forall>i. 1 \<le> i \<and> i \<le> 13 \<longrightarrow> pf (parts ! i) \<noteq> None)"
proof -
  have "(\<not> isl (pp (parts ! 0))) = (\<exists>ps. pp (parts ! 0) = Inr ps)"
    by (cases "pp (parts ! 0)") simp_all
  moreover have "list_all (\<lambda>i. pf (parts ! i) \<noteq> None) [1..<14]
      = (\<forall>i. 1 \<le> i \<and> i \<le> 13 \<longrightarrow> pf (parts ! i) \<noteq> None)"
    by (auto simp: list_all_iff)
  ultimately show ?thesis by (simp add: well_formed_def)
qed

lemma load_entry_Inr_iff:
  "(\<exists>e. load_entry pp pf parts = Inr e) \<longleftrightarrow> well_formed pp pf parts"
proof
  assume "\<exists>e. load_entry pp pf parts = Inr e"
  then show "well_formed pp pf parts"
    unfolding well_formed_iff by (blast dest: load_entry_InrD)
next
  assume wf: "well_formed pp pf parts"
  then obtain ps where ps: "pp (parts ! 0) = Inr ps" and len: "14 \<le> length parts"
    and some: "\<And>i. 1 \<le> i \<Longrightarrow> i \<le> 13 \<Longrightarrow> pf (parts ! i) \<noteq> None"
    unfolding well_formed_iff by blast
  have "load_entry pp pf parts = Inr (entry_of ps (\<lambda>i. the (pf (parts ! i))))"
    using len ps some by (intro load_entry_Inr) auto
  then show "\<exists>e. load_entry pp pf parts = Inr e" ..
qed

lemma load_entry_Inl:
  assumes "load_entry pp pf parts = Inl e"
  shows "e = IndexError \<or> e = ValueError \<or> pp (parts ! 0) = Inl e"
  using assms unfolding load_entry_def and_then_eq_Inl
  by (auto simp: field_def dest!: float_field_Inl split: if_splits)

subsection \<open>The loop\<close>

lemma load_lines_skip:
  "length (split line) < 10 \<Longrightarrow> load_lines pp pf (line # rest) acc = load_lines pp pf rest acc"
  by simp

lemma load_lines_keep:
  "9 < length (split line) \<Longrightarrow> load_entry pp pf (split line) = Inr e \<Longrightarrow>
     load_lines pp pf (line # rest) acc = load_lines pp pf rest (acc @ [e])"
  by simp

lemma load_lines_raise:
  "9 < length (split line) \<Longrightarrow> load_entry pp pf (split line) = Inl e \<Longrightarrow>
     load_lines pp pf (line # rest) acc = Inl e"
  by simp

lemma load_lines_Inr_iff:
  "load_lines pp pf lines acc = Inr rs \<longleftrightarrow>
     (\<exists>new. rs = acc @ new \<and>
        map Inr new = map (\<lambda>l. load_entry pp pf (split l)) (filter (\<lambda>l. 9 < length (split l)) lines))"
proof (induction lines arbitrary: acc)
  case Nil
  show ?case by auto
next
  case (Cons line rest)
  show ?case
  proof (cases "9 < length (split line)")
    case False
    then show ?thesis using Cons.IH [of acc] by simp
  next
    case True
    show ?thesis
    proof (cases "load_entry pp pf (split line)")
      case (Inl e)
      then show ?thesis using True by auto
    next
      case (Inr e)
      have "load_lines pp pf (line # rest) acc = load_lines pp pf rest (acc @ [e])"
        using True Inr by simp
      then show ?thesis using True Inr Cons.IH [of "acc @ [e]"]
        by (auto simp: Cons_eq_map_conv)
    qed
  qed
qed

lemma float_field_Inl_len:
  "i < length parts \<Longrightarrow> float_field float parts i = Inl e \<Longrightarrow> e = ValueError"
  by (auto simp: float_field_def field_def split: option.splits)

lemma load_entry_long_Inl:
  assumes "14 \<le> length parts" and "load_entry pp pf parts = Inl e"
  shows "e = ValueError \<or> pp (parts ! 0) = Inl e"
  using assms unfolding load_entry_def and_then_eq_Inl
  by (auto simp: field_def dest!: float_field_Inl_len [rotated] split: if_splits)

lemma load_entry_not_well_formed:
  assumes "\<not> well_formed pp pf parts"
  shows "\<exists>e. load_entry pp pf parts = Inl e"
  using assms load_entry_Inr_iff [of pp pf parts]
  by (cases "load_entry pp pf parts") auto

lemma load_entry_param_error:
  "parts \<noteq> [] \<Longrightarrow> pp (parts ! 0) = Inl e \<Longrightarrow> load_entry pp pf parts = Inl e"
  by (simp add: load_entry_def field_def)

lemma load_entry_bad_float:
  assumes len: "14 \<le> length parts"
    and bad: "\<not> list_all (\<lambda>i. pf (parts ! i) \<noteq> None) [1..<14]"
  shows "load_entry pp pf parts = (case pp (parts ! 0) of Inl e \<Rightarrow> Inl e | Inr ps \<Rightarrow> Inl ValueError)"
proof (cases "pp (parts ! 0)")
  case (Inl e)
  moreover from len have "parts \<noteq> []" by auto
  ultimately show ?thesis by (simp add: load_entry_param_error)
next
  case (Inr ps)
  from bad have "\<not> well_formed pp pf parts" by (simp add: well_formed_def)
  then obtain e where e: "load_entry pp pf parts = Inl e"
    using load_entry_not_well_formed by blast
  with len Inr have "e = ValueError" by (auto dest: load_entry_long_Inl)
  with e Inr show ?thesis by simp
qed

lemma load_entry_short:
  assumes lo: "9 < length parts" and hi: "length parts < 14"
    and ps: "\<not> isl (pp (parts ! 0))"
    and fl: "list_all (\<lambda>i. pf (parts ! i) \<noteq> None) [5..<length parts]"
  shows "load_entry pp pf parts = Inl IndexError"
proof -
  from ps obtain p where p: "pp (parts ! 0) = Inr p" by (cases "pp (parts ! 0)") auto
  have z: "field parts 0 = Inr (parts ! 0)" using lo by (auto simp: field_def)
  have ok: "\<exists>v. float_field pf parts i = Inr v" if "5 \<le> i" "i < length parts" for i
    using that fl by (auto simp: float_field_eq_Inr list_all_iff)
  have out: "float_field pf parts (length parts) = Inl IndexError"
    by (simp add: float_field_def field_def)
  from lo hi have "length parts = 10 \<or> length parts = 11 \<or> length parts = 12 \<or> length parts = 13"
    by arith
  then show ?thesis
  proof (elim disjE)
    assume n: "length parts = 10"
    from ok [of 5] ok [of 6] ok [of 7] ok [of 8] ok [of 9] n out
    show ?thesis unfolding load_entry_def by (auto simp: z p)
  next
    assume n: "length parts = 11"
    from ok [of 5] ok [of 6] ok [of 7] ok [of 8] ok [of 9] ok [of 10] n out
    show ?thesis unfolding load_entry_def by (auto simp: z p)
  next
    assume n: "length parts = 12"
    from ok [of 5] ok [of 6] ok [of 7] ok [of 8] ok [of 9] ok [of 10] ok [of 11] n out
    show ?thesis unfolding load_entry_def by (auto simp: z p)
  next
    assume n: "length parts = 13"
    from ok [of 5] ok [of 6] ok [of 7] ok [of 8] ok [of 9] ok [of 10] ok [of 11] ok [of 12] n out
    show ?thesis unfolding load_entry_def by (auto simp: z p)
  qed
qed

subsection \<open>The entry of a well-formed line\<close>

lemma metrics_entry_of:
  "map (metrics (entry_of ps v))
     [''cost.efficiency'', ''cost.safety'', ''cost.accel'', ''cost.steer'',
      ''efficiency'', ''safety'', ''ud'', ''cc'',
      ''mean_ts'', ''95_ts'', ''997_ts'', ''max_ts'', ''stddev_ts'']
   = map (\<lambda>i. Some (v i)) [1..<14]"
  by (simp add: entry_of_def upt_rec eval_nat_numeral)

lemma cost_entry_of:
  "metrics (entry_of ps v) ''cost.efficiency'' = Some (v 1) \<and>
   metrics (entry_of ps v) ''cost.safety'' = Some (v 2) \<and>
   metrics (entry_of ps v) ''cost.accel'' = Some (v 3) \<and>
   metrics (entry_of ps v) ''cost.steer'' = Some (v 4) \<and>
   metrics (entry_of ps v) ''cost'' = Some (v 1 + v 2 + v 3 + v 4)"
  by (simp add: entry_of_def)

lemma params_entry_of: "params (entry_of ps v) = ps"
  by (simp add: entry_of_def)

subsection \<open>The results as a whole\<close>

lemma load_lines_prefix:
  "load_lines pp pf lines acc = Inr rs \<Longrightarrow> prefix acc rs"
  by (auto simp: load_lines_Inr_iff)

lemma load_results_Inr_iff:
  "load_results pp pf lines = Inr rs \<longleftrightarrow>
     map Inr rs = map (\<lambda>l. load_entry pp pf (split l)) (filter (\<lambda>l. 9 < length (split l)) lines)"
  by (simp add: load_results_def load_lines_Inr_iff)

lemma loaded_entry_of:
  fixes e :: "('a, 'b :: plus) entry"
  assumes "load_results pp pf lines = Inr rs" and "e \<in> set rs"
  shows "\<exists>l ps v. l \<in> set lines \<and> e = entry_of ps v"
proof -
  let ?f = "\<lambda>l. load_entry pp pf (split l)" and ?P = "\<lambda>l. 9 < length (split l)"
  from assms(1) have eq: "map Inr rs = map ?f (filter ?P lines)"
    by (simp add: load_results_Inr_iff)
  from assms(2) have "(Inr e :: error + ('a, 'b) entry) \<in> set (map Inr rs)" by simp
  then have "Inr e \<in> set (map ?f (filter ?P lines))" unfolding eq .
  then obtain l where "l \<in> set lines" and "load_entry pp pf (split l) = Inr e"
    by auto
  then show ?thesis by (blast dest: load_entry_InrD)
qed

lemma load_lines_filter:
  "load_lines pp pf (filter (\<lambda>l. 10 \<le> length (split l)) lines) acc = load_lines pp pf lines acc"
proof (induction lines arbitrary: acc)
  case Nil
  show ?case by simp
next
  case (Cons line rest)
  show ?case
  proof (cases "10 \<le> length (split line)")
    case True
    then show ?thesis using Cons.IH
      by (cases "load_entry pp pf (split line)") simp_all
  next
    case False
    then show ?thesis using Cons.IH by simp
  qed
qed

subsection \<open>Sample lines\<close>

lemma split_sample8: "split ''m 30 20 10 5 7 0 3'' = [''m'', ''30'', ''20'', ''10'', ''5'', ''7'', ''0'', ''3'']"
  by (simp add: split_def isspace_def)

lemma split_sample10:
  "split ''m 30 20 10 5 7 0 3 1 2'' = [''m'', ''30'', ''20'', ''10'', ''5'', ''7'', ''0'', ''3'', ''1'', ''2'']"
  by (simp add: split_def isspace_def)

lemma split_sample14:
  "split ''m 30 20 10 5 7 0 3 1 2 4 8 16 9'' =
     [''m'', ''30'', ''20'', ''10'', ''5'', ''7'', ''0'', ''3'', ''1'', ''2'', ''4'', ''8'', ''16'', ''9'']"
  by (simp add: split_def isspace_def)

lemma split_sample14x:
  "split ''m 30 20 10 5 7 0 3 1 2 4 8 16 abc'' =
     [''m'', ''30'', ''20'', ''10'', ''5'', ''7'', ''0'', ''3'', ''1'', ''2'', ''4'', ''8'', ''16'', ''abc'']"
  by (simp add: split_def isspace_def)

lemma split_sample14b:
  "split ''n 1 1 1 1 7 0 3 1 2 4 8 16 9'' =
     [''n'', ''1'', ''1'', ''1'', ''1'', ''7'', ''0'', ''3'', ''1'', ''2'', ''4'', ''8'', ''16'', ''9'']"
  by (simp add: split_def isspace_def)

lemma well_formed_sample14:
  "well_formed (Inr :: string \<Rightarrow> error + string) digits_float (split ''m 30 20 10 5 7 0 3 1 2 4 8 16 9'')"
  by (simp add: split_sample14 well_formed_def digits_float_def isdigit_def upt_rec)

lemma well_formed_sample14b:
  "well_formed (Inr :: string \<Rightarrow> error + string) digits_float (split ''n 1 1 1 1 7 0 3 1 2 4 8 16 9'')"
  by (simp add: split_sample14b well_formed_def digits_float_def isdigit_def upt_rec)

lemma bad_float_sample14x:
  "\<not> list_all (\<lambda>i. digits_float (split ''m 30 20 10 5 7 0 3 1 2 4 8 16 abc'' ! i) \<noteq> None) [1..<14]"
  by (simp add: split_sample14x digits_float_def isdigit_def upt_rec)

lemma sample_lengths:
  "9 < length (split ''m 30 20 10 5 7 0 3 1 2 4 8 16 9'')"
  "9 < length (split ''n 1 1 1 1 7 0 3 1 2 4 8 16 9'')"
  "length (split ''m 30 20 10 5 7 0 3'') = 8"
  by (simp_all add: split_sample14 split_sample14b split_sample8)

section \<open>Claims about the loader\<close>

subsection \<open>C1: what one line does to the load\<close>

text \<open>
  C1 says that every line either gives one record or is skipped, and that no line makes
  the load raise. The second half fails: after a good line, a line of fourteen fields
  whose last field is \<^verbatim>\<open>abc\<close> ends the whole load with ValueError, and the record of
  the good line is lost with it.
\<close>

theorem load_raises_counterexample:
  "load_results (Inr :: string \<Rightarrow> error + string) digits_float
     [''m 30 20 10 5 7 0 3 1 2 4 8 16 9'', ''m 30 20 10 5 7 0 3 1 2 4 8 16 abc'']
   = Inl ValueError"
  by (simp add: load_results_def split_sample14 split_sample14x load_entry_def float_field_def
      field_def digits_float_def isdigit_def)

text \<open>
  C1 as amended. A line with fewer than 10 fields is skipped and the load goes on with
  the same results. A well-formed line (at least 14 fields, a parameter token that
  parses, floats in fields 1 to 13) appends exactly one record and the load goes on. A
  line with at least 14 fields one of whose fields 1 to 13 is no float is not skipped:
  the load raises, with ValueError unless \<^verbatim>\<open>parse_parameters\<close> raised first. Lines with
  10 to 13 fields are left out of this statement.
\<close>

theorem load_line_cases:
  "(length (split line) < 10 \<longrightarrow>
      load_lines pp pf (line # rest) acc = load_lines pp pf rest acc) \<and>
   (well_formed pp pf (split line) \<longrightarrow>
      (\<exists>e. load_entry pp pf (split line) = Inr e \<and>
           load_lines pp pf (line # rest) acc = load_lines pp pf rest (acc @ [e]))) \<and>
   (14 \<le> length (split line) \<and> \<not> list_all (\<lambda>i. pf (split line ! i) \<noteq> None) [1..<14] \<longrightarrow>
      load_lines pp pf (line # rest) acc =
        (case pp (split line ! 0) of Inl e \<Rightarrow> Inl e | Inr ps \<Rightarrow> Inl ValueError))"
proof (intro conjI impI)
  assume "length (split line) < 10"
  then show "load_lines pp pf (line # rest) acc = load_lines pp pf rest acc"
    by (rule load_lines_skip)
next
  assume wf: "well_formed pp pf (split line)"
  then obtain e where e: "load_entry pp pf (split line) = Inr e"
    using load_entry_Inr_iff by blast
  from wf have "9 < length (split line)" by (simp add: well_formed_def)
  with e show "\<exists>e. load_entry pp pf (split line) = Inr e \<and>
      load_lines pp pf (line # rest) acc = load_lines pp pf rest (acc @ [e])"
    by (auto simp: load_lines_keep)
next
  assume a: "14 \<le> length (split line) \<and> \<not> list_all (\<lambda>i. pf (split line ! i) \<noteq> None) [1..<14]"
  then have "load_entry pp pf (split line) =
      (case pp (split line ! 0) of Inl e \<Rightarrow> Inl e | Inr ps \<Rightarrow> Inl ValueError)"
    by (simp add: load_entry_bad_float)
  with a show "load_lines pp pf (line # rest) acc =
      (case pp (split line ! 0) of Inl e \<Rightarrow> Inl e | Inr ps \<Rightarrow> Inl ValueError)"
    by (auto split: sum.splits)
qed

theorem load_line_cases_witness:
  "length (split ''m 30 20 10 5 7 0 3'') < 10 \<and>
   load_lines (Inr :: string \<Rightarrow> error + string) digits_float [''m 30 20 10 5 7 0 3''] [] = Inr [] \<and>
   well_formed (Inr :: string \<Rightarrow> error + string) digits_float
     (split ''m 30 20 10 5 7 0 3 1 2 4 8 16 9'') \<and>
   (\<exists>e. load_lines (Inr :: string \<Rightarrow> error + string) digits_float
          [''m 30 20 10 5 7 0 3 1 2 4 8 16 9''] [] = Inr [e]) \<and>
   14 \<le> length (split ''m 30 20 10 5 7 0 3 1 2 4 8 16 abc'') \<and>
   \<not> list_all (\<lambda>i. digits_float (split ''m 30 20 10 5 7 0 3 1 2 4 8 16 abc'' ! i) \<noteq> None) [1..<14] \<and>
   load_lines (Inr :: string \<Rightarrow> error + string) digits_float
     [''m 30 20 10 5 7 0 3 1 2 4 8 16 abc''] [] = Inl ValueError"
proof -
  have h1: "length (split ''m 30 20 10 5 7 0 3'') < 10"
    by (simp add: split_sample8)
  note h2 = well_formed_sample14
  have h3: "14 \<le> length (split ''m 30 20 10 5 7 0 3 1 2 4 8 16 abc'')"
    by (simp add: split_sample14x)
  note h4 = bad_float_sample14x
  from h1 load_line_cases [of "''m 30 20 10 5 7 0 3''" "Inr :: string \<Rightarrow> error + string" digits_float "[]" "[]"]
  have c1: "load_lines (Inr :: string \<Rightarrow> error + string) digits_float [''m 30 20 10 5 7 0 3''] [] = Inr []"
    by simp
  from h2 load_line_cases [of "''m 30 20 10 5 7 0 3 1 2 4 8 16 9''"
      "Inr :: string \<Rightarrow> error + string" digits_float "[]" "[]"]
  have c2: "\<exists>e. load_lines (Inr :: string \<Rightarrow> error + string) digits_float
          [''m 30 20 10 5 7 0 3 1 2 4 8 16 9''] [] = Inr [e]"
    by auto
  from h3 h4 load_line_cases [of "''m 30 20 10 5 7 0 3 1 2 4 8 16 abc''"
      "Inr :: string \<Rightarrow> error + string" digits_float "[]" "[]"]
  have c3: "load_lines (Inr :: string \<Rightarrow> error + string) digits_float
     [''m 30 20 10 5 7 0 3 1 2 4 8 16 abc''] [] = Inl ValueError"
    by simp
  from h1 h2 h3 h4 c1 c2 c3 show ?thesis by blast
qed

subsection \<open>C2: the guard admits lines that the body cannot read\<close>

text \<open>
  C2: the guard \<^verbatim>\<open>len(parts) > 9\<close> admits every line with at least 10 fields, and the
  body then reads fields up to 13 and parses fields 1 to 13 as floats. So an admitted
  line with fewer than 14 fields, or with a field among 1 to 13 that is no float, makes
  the load raise instead of being skipped: the exception is IndexError or ValueError,
  or the one \<^verbatim>\<open>parse_parameters\<close> raised. A line with 10 to 13 fields whose parameter
  token parses and whose fields from 5 on are floats raises IndexError.
\<close>

theorem guard_admits_bad_lines:
  assumes "9 < length (split line)"
    and "length (split line) < 14 \<or> \<not> list_all (\<lambda>i. pf (split line ! i) \<noteq> None) [1..<14]"
  shows "(\<exists>e. load_lines pp pf (line # rest) acc = Inl e \<and>
            (e = IndexError \<or> e = ValueError \<or> pp (split line ! 0) = Inl e)) \<and>
         (length (split line) < 14 \<and> \<not> isl (pp (split line ! 0)) \<and>
            list_all (\<lambda>i. pf (split line ! i) \<noteq> None) [5..<length (split line)] \<longrightarrow>
          load_lines pp pf (line # rest) acc = Inl IndexError)"
proof (intro conjI impI)
  from assms(2) have "\<not> well_formed pp pf (split line)"
    by (auto simp: well_formed_def)
  then obtain e where e: "load_entry pp pf (split line) = Inl e"
    using load_entry_not_well_formed by blast
  then have "e = IndexError \<or> e = ValueError \<or> pp (split line ! 0) = Inl e"
    by (rule load_entry_Inl)
  moreover from e assms(1) have "load_lines pp pf (line # rest) acc = Inl e"
    by (rule load_lines_raise [rotated])
  ultimately show "\<exists>e. load_lines pp pf (line # rest) acc = Inl e \<and>
            (e = IndexError \<or> e = ValueError \<or> pp (split line ! 0) = Inl e)"
    by blast
next
  assume "length (split line) < 14 \<and> \<not> isl (pp (split line ! 0)) \<and>
            list_all (\<lambda>i. pf (split line ! i) \<noteq> None) [5..<length (split line)]"
  with assms(1) have "load_entry pp pf (split line) = Inl IndexError"
    by (intro load_entry_short) auto
  with assms(1) show "load_lines pp pf (line # rest) acc = Inl IndexError"
    by (rule load_lines_raise)
qed

theorem guard_admits_bad_lines_witness:
  "9 < length (split ''m 30 20 10 5 7 0 3 1 2'') \<and> length (split ''m 30 20 10 5 7 0 3 1 2'') < 14 \<and>
   \<not> isl ((Inr :: string \<Rightarrow> error + string) (split ''m 30 20 10 5 7 0 3 1 2'' ! 0)) \<and>
   list_all (\<lambda>i. digits_float (split ''m 30 20 10 5 7 0 3 1 2'' ! i) \<noteq> None)
     [5..<length (split ''m 30 20 10 5 7 0 3 1 2'')] \<and>
   load_lines (Inr :: string \<Rightarrow> error + string) digits_float [''m 30 20 10 5 7 0 3 1 2''] []
     = Inl IndexError \<and>
   9 < length (split ''m 30 20 10 5 7 0 3 1 2 4 8 16 abc'') \<and>
   \<not> list_all (\<lambda>i. digits_float (split ''m 30 20 10 5 7 0 3 1 2 4 8 16 abc'' ! i) \<noteq> None) [1..<14] \<and>
   load_lines (Inr :: string \<Rightarrow> error + string) digits_float
     [''m 30 20 10 5 7 0 3 1 2 4 8 16 abc''] [] = Inl ValueError"
proof -
  let ?short = "''m 30 20 10 5 7 0 3 1 2''" and ?word = "''m 30 20 10 5 7 0 3 1 2 4 8 16 abc''"
  let ?pp = "Inr :: string \<Rightarrow> error + string"
  have h1: "9 < length (split ?short)"
    and h2: "length (split ?short) < 14"
    and h3: "\<not> isl (?pp (split ?short ! 0))"
    by (simp_all add: split_sample10)
  have h4: "list_all (\<lambda>i. digits_float (split ?short ! i) \<noteq> None) [5..<length (split ?short)]"
    by (simp add: split_sample10 digits_float_def isdigit_def upt_rec)
  from h2 have h2': "length (split ?short) < 14 \<or>
      \<not> list_all (\<lambda>i. digits_float (split ?short ! i) \<noteq> None) [1..<14]"
    by (rule disjI1)
  from guard_admits_bad_lines [OF h1 h2', of ?pp "[]" "[]"] h2 h3 h4
  have c1: "load_lines ?pp digits_float [?short] [] = Inl IndexError"
    by blast
  have g1: "9 < length (split ?word)"
    by (simp add: split_sample14x)
  note g2 = bad_float_sample14x
  from g2 have g2': "length (split ?word) < 14 \<or>
      \<not> list_all (\<lambda>i. digits_float (split ?word ! i) \<noteq> None) [1..<14]"
    by (rule disjI2)
  from guard_admits_bad_lines [OF g1 g2', of ?pp "[]" "[]"]
  obtain e where e: "load_lines ?pp digits_float [?word] [] = Inl e"
    and which: "e = IndexError \<or> e = ValueError \<or> ?pp (split ?word ! 0) = Inl e"
    by blast
  have "e \<noteq> IndexError"
    using e by (simp add: split_sample14x load_entry_def float_field_def field_def
        digits_float_def isdigit_def)
  with which have "e = ValueError" by auto
  with e have c2: "load_lines ?pp digits_float [?word] [] = Inl ValueError" by simp
  from h1 h2 h3 h4 c1 g1 g2 c2 show ?thesis by (intro conjI)
qed

subsection \<open>C3: the fields of a record, by position\<close>

text \<open>
  C3: a well-formed line loads to one record whose fields are taken from the split line
  by fixed position. Field 0 is the token given to \<^verbatim>\<open>parse_parameters\<close>, whose result
  is \<^verbatim>\<open>params\<close>; fields 1 to 4 are \<^verbatim>\<open>cost.efficiency\<close>, \<^verbatim>\<open>cost.safety\<close>,
  \<^verbatim>\<open>cost.accel\<close>, \<^verbatim>\<open>cost.steer\<close>; fields 5 to 8 are \<^verbatim>\<open>efficiency\<close>, \<^verbatim>\<open>safety\<close>,
  \<^verbatim>\<open>ud\<close>, \<^verbatim>\<open>cc\<close>; fields 9 to 13 are \<^verbatim>\<open>mean_ts\<close>, \<^verbatim>\<open>95_ts\<close>, \<^verbatim>\<open>997_ts\<close>,
  \<^verbatim>\<open>max_ts\<close>, \<^verbatim>\<open>stddev_ts\<close>; each is what \<^verbatim>\<open>float\<close> returns on its field.
\<close>

theorem fields_by_position:
  assumes "well_formed pp pf (split line)"
  shows "\<exists>e. load_results pp pf [line] = Inr [e] \<and>
           pp (split line ! 0) = Inr (params e) \<and>
           map (metrics e)
             [''cost.efficiency'', ''cost.safety'', ''cost.accel'', ''cost.steer'',
              ''efficiency'', ''safety'', ''ud'', ''cc'',
              ''mean_ts'', ''95_ts'', ''997_ts'', ''max_ts'', ''stddev_ts'']
           = map (\<lambda>i. pf (split line ! i)) [1..<14]"
proof -
  let ?parts = "split line"
  from assms obtain e where e: "load_entry pp pf ?parts = Inr e"
    using load_entry_Inr_iff by blast
  from load_entry_InrD [OF e] obtain ps where len: "14 \<le> length ?parts"
    and ps: "pp (?parts ! 0) = Inr ps"
    and some: "\<forall>i. 1 \<le> i \<and> i \<le> 13 \<longrightarrow> pf (?parts ! i) \<noteq> None"
    and eq: "e = entry_of ps (\<lambda>i. the (pf (?parts ! i)))"
    by blast
  from len e have "load_results pp pf [line] = Inr [e]"
    by (simp add: load_results_def)
  moreover from ps eq have "pp (?parts ! 0) = Inr (params e)"
    by (simp add: params_entry_of)
  moreover have "map (\<lambda>i. Some (the (pf (?parts ! i)))) [1..<14] = map (\<lambda>i. pf (?parts ! i)) [1..<14]"
    using some by (intro map_cong) auto
  ultimately show ?thesis
    unfolding eq by (auto simp only: metrics_entry_of)
qed

theorem fields_by_position_witness:
  "well_formed (Inr :: string \<Rightarrow> error + string) digits_float
     (split ''m 30 20 10 5 7 0 3 1 2 4 8 16 9'') \<and>
   (\<exists>e. load_results (Inr :: string \<Rightarrow> error + string) digits_float
          [''m 30 20 10 5 7 0 3 1 2 4 8 16 9''] = Inr [e] \<and>
        params e = ''m'' \<and>
        map (metrics e)
          [''cost.efficiency'', ''cost.safety'', ''cost.accel'', ''cost.steer'',
           ''efficiency'', ''safety'', ''ud'', ''cc'',
           ''mean_ts'', ''95_ts'', ''997_ts'', ''max_ts'', ''stddev_ts'']
        = [Some 30, Some 20, Some 10, Some 5, Some 7, Some 0, Some 3, Some 1, Some 2,
           Some 4, Some 8, Some 16, Some 9])"
proof -
  have "map (\<lambda>i. digits_float (split ''m 30 20 10 5 7 0 3 1 2 4 8 16 9'' ! i)) [1..<14]
      = [Some 30, Some 20, Some 10, Some 5, Some 7, Some 0, Some 3, Some 1, Some 2,
         Some 4, Some 8, Some 16, Some 9]"
    by (simp add: split_sample14 digits_float_def isdigit_def upt_rec)
  moreover have "split ''m 30 20 10 5 7 0 3 1 2 4 8 16 9'' ! 0 = ''m''"
    by (simp add: split_sample14)
  ultimately show ?thesis
    using fields_by_position [OF well_formed_sample14] well_formed_sample14 by auto
qed

subsection \<open>C4: the cost is the sum of the four cost components\<close>

text \<open>
  C4: in every loaded record, \<^verbatim>\<open>cost\<close> is \<^verbatim>\<open>cost.efficiency + cost.safety + cost.accel
  + cost.steer\<close>, added from the left as Python does. The record is not changed after
  it is appended: what the loop has loaded after the first lines of a file is a prefix
  of what it returns for the whole file.
\<close>

theorem cost_is_sum:
  assumes "load_results pp pf (lines @ later) = Inr rs"
  shows "(\<exists>rs'. load_results pp pf lines = Inr rs' \<and> prefix rs' rs) \<and>
         (\<forall>e \<in> set rs. \<exists>a b c d.
            metrics e ''cost.efficiency'' = Some a \<and> metrics e ''cost.safety'' = Some b \<and>
            metrics e ''cost.accel'' = Some c \<and> metrics e ''cost.steer'' = Some d \<and>
            metrics e ''cost'' = Some (a + b + c + d))"
proof
  let ?f = "\<lambda>l. load_entry pp pf (split l)" and ?P = "\<lambda>l. 9 < length (split l)"
  from assms have "map Inr rs = map ?f (filter ?P lines) @ map ?f (filter ?P later)"
    by (simp add: load_results_Inr_iff)
  then obtain rs' rs'' where "rs = rs' @ rs''" and "map Inr rs' = map ?f (filter ?P lines)"
    by (auto simp: map_eq_append_conv)
  then show "\<exists>rs'. load_results pp pf lines = Inr rs' \<and> prefix rs' rs"
    by (auto simp: load_results_Inr_iff)
next
  show "\<forall>e \<in> set rs. \<exists>a b c d.
            metrics e ''cost.efficiency'' = Some a \<and> metrics e ''cost.safety'' = Some b \<and>
            metrics e ''cost.accel'' = Some c \<and> metrics e ''cost.steer'' = Some d \<and>
            metrics e ''cost'' = Some (a + b + c + d)"
  proof
    fix e assume "e \<in> set rs"
    with assms obtain ps v where "e = entry_of ps v"
      by (blast dest: loaded_entry_of)
    then show "\<exists>a b c d.
            metrics e ''cost.efficiency'' = Some a \<and> metrics e ''cost.safety'' = Some b \<and>
            metrics e ''cost.accel'' = Some c \<and> metrics e ''cost.steer'' = Some d \<and>
            metrics e ''cost'' = Some (a + b + c + d)"
      using cost_entry_of [of ps v] by blast
  qed
qed

theorem cost_is_sum_witness:
  "\<exists>rs. load_results (Inr :: string \<Rightarrow> error + string) digits_float
          ([''m 30 20 10 5 7 0 3 1 2 4 8 16 9''] @ [''n 1 1 1 1 7 0 3 1 2 4 8 16 9'']) = Inr rs \<and>
        (\<exists>rs'. load_results (Inr :: string \<Rightarrow> error + string) digits_float
           [''m 30 20 10 5 7 0 3 1 2 4 8 16 9''] = Inr rs' \<and> prefix rs' rs) \<and>
        map (\<lambda>e. metrics e ''cost'') rs = [Some 65, Some 4]"
proof -
  let ?a = "''m 30 20 10 5 7 0 3 1 2 4 8 16 9''" and ?b = "''n 1 1 1 1 7 0 3 1 2 4 8 16 9''"
  let ?pp = "Inr :: string \<Rightarrow> error + string"
  from well_formed_sample14 obtain e1 where l1: "load_entry ?pp digits_float (split ?a) = Inr e1"
    using load_entry_Inr_iff by blast
  from well_formed_sample14b obtain e2 where l2: "load_entry ?pp digits_float (split ?b) = Inr e2"
    using load_entry_Inr_iff by blast
  from load_entry_InrD [OF l1] obtain ps1
    where "e1 = entry_of ps1 (\<lambda>i. the (digits_float (split ?a ! i)))"
    by blast
  then have m1: "metrics e1 ''cost.efficiency'' = Some 30" "metrics e1 ''cost.safety'' = Some 20"
      "metrics e1 ''cost.accel'' = Some 10" "metrics e1 ''cost.steer'' = Some 5"
    using cost_entry_of [of ps1 "\<lambda>i. the (digits_float (split ?a ! i))"]
    by (simp_all add: split_sample14 digits_float_def isdigit_def)
  from load_entry_InrD [OF l2] obtain ps2
    where "e2 = entry_of ps2 (\<lambda>i. the (digits_float (split ?b ! i)))"
    by blast
  then have m2: "metrics e2 ''cost.efficiency'' = Some 1" "metrics e2 ''cost.safety'' = Some 1"
      "metrics e2 ''cost.accel'' = Some 1" "metrics e2 ''cost.steer'' = Some 1"
    using cost_entry_of [of ps2 "\<lambda>i. the (digits_float (split ?b ! i))"]
    by (simp_all add: split_sample14b digits_float_def isdigit_def)
  have rs: "load_results ?pp digits_float ([?a] @ [?b]) = Inr [e1, e2]"
    using sample_lengths(1,2) l1 l2 by (simp add: load_results_Inr_iff)
  from cost_is_sum [OF rs] m1 m2 have c: "map (\<lambda>e. metrics e ''cost'') [e1, e2] = [Some 65, Some 4]"
    by auto
  from cost_is_sum [OF rs] have p: "\<exists>rs'. load_results ?pp digits_float [?a] = Inr rs' \<and> prefix rs' [e1, e2]"
    by (rule conjunct1)
  from rs p c show ?thesis
    by - (rule exI [of _ "[e1, e2]"], (intro conjI; assumption))
qed

subsection \<open>C5: the basic load scenario\<close>

text \<open>
  C5: a file of three lines, one with 8 fields and two well-formed ones, in any order,
  loads to exactly the two records of the well-formed lines. In general the lines with
  fewer than 10 fields are skipped: the load of a file is the load of the file without
  them.
\<close>

theorem basic_load:
  assumes bad: "length (split bad) = 8"
    and wf1: "well_formed pp pf (split l1)" and wf2: "well_formed pp pf (split l2)"
    and lines: "lines = [bad, l1, l2] \<or> lines = [l1, bad, l2] \<or> lines = [l1, l2, bad]"
  shows "(\<exists>e1 e2. load_results pp pf lines = Inr [e1, e2] \<and>
            load_entry pp pf (split l1) = Inr e1 \<and> load_entry pp pf (split l2) = Inr e2) \<and>
         (\<forall>file. load_results pp pf (filter (\<lambda>l. 10 \<le> length (split l)) file)
            = load_results pp pf file)"
proof
  from wf1 obtain e1 where e1: "load_entry pp pf (split l1) = Inr e1"
    using load_entry_Inr_iff by blast
  from wf2 obtain e2 where e2: "load_entry pp pf (split l2) = Inr e2"
    using load_entry_Inr_iff by blast
  from wf1 wf2 have len: "9 < length (split l1)" "9 < length (split l2)"
    by (simp_all add: well_formed_def)
  from bad have skip: "\<not> 9 < length (split bad)" by simp
  from lines have "load_results pp pf lines = Inr [e1, e2]"
    using e1 e2 len skip by (auto simp: load_results_Inr_iff)
  with e1 e2 show "\<exists>e1 e2. load_results pp pf lines = Inr [e1, e2] \<and>
      load_entry pp pf (split l1) = Inr e1 \<and> load_entry pp pf (split l2) = Inr e2"
    by blast
next
  show "\<forall>file. load_results pp pf (filter (\<lambda>l. 10 \<le> length (split l)) file)
            = load_results pp pf file"
    by (simp add: load_results_def load_lines_filter)
qed

theorem basic_load_witness:
  "length (split ''m 30 20 10 5 7 0 3'') = 8 \<and>
   well_formed (Inr :: string \<Rightarrow> error + string) digits_float
     (split ''m 30 20 10 5 7 0 3 1 2 4 8 16 9'') \<and>
   well_formed (Inr :: string \<Rightarrow> error + string) digits_float
     (split ''n 1 1 1 1 7 0 3 1 2 4 8 16 9'') \<and>
   (\<exists>e1 e2. load_results (Inr :: string \<Rightarrow> error + string) digits_float
        [''m 30 20 10 5 7 0 3 1 2 4 8 16 9'', ''m 30 20 10 5 7 0 3'',
         ''n 1 1 1 1 7 0 3 1 2 4 8 16 9''] = Inr [e1, e2] \<and>
      params e1 = ''m'' \<and> params e2 = ''n'')"
proof -
  let ?a = "''m 30 20 10 5 7 0 3 1 2 4 8 16 9''" and ?b = "''n 1 1 1 1 7 0 3 1 2 4 8 16 9''"
  let ?s = "''m 30 20 10 5 7 0 3''"
  let ?pp = "Inr :: string \<Rightarrow> error + string"
  have pick: "[?a, ?s, ?b] = [?s, ?a, ?b] \<or> [?a, ?s, ?b] = [?a, ?s, ?b] \<or> [?a, ?s, ?b] = [?a, ?b, ?s]"
    by simp
  from basic_load [OF sample_lengths(3) well_formed_sample14 well_formed_sample14b pick]
  obtain e1 e2 where r: "load_results ?pp digits_float [?a, ?s, ?b] = Inr [e1, e2]"
    and e1: "load_entry ?pp digits_float (split ?a) = Inr e1"
    and e2: "load_entry ?pp digits_float (split ?b) = Inr e2"
    by blast
  from load_entry_InrD [OF e1] have "params e1 = ''m''"
    by (auto simp: split_sample14 params_entry_of)
  moreover from load_entry_InrD [OF e2] have "params e2 = ''n''"
    by (auto simp: split_sample14b params_entry_of)
  ultimately have "\<exists>e1 e2. load_results ?pp digits_float [?a, ?s, ?b] = Inr [e1, e2] \<and>
      params e1 = ''m'' \<and> params e2 = ''n''"
    using r by blast
  with sample_lengths(3) well_formed_sample14 well_formed_sample14b show ?thesis
    by (intro conjI)
qed

subsection \<open>C10: the results follow the file\<close>

text \<open>
  C10: the load returns \<open>rs\<close> exactly when \<open>rs\<close> lists the records of the accepted
  lines (those with more than 9 fields), one for each, in the order of the file. The
  loop only appends: started with the results \<open>acc\<close>, it returns \<open>acc\<close> followed by
  those records.
\<close>

theorem results_in_file_order:
  "((load_results pp pf lines = Inr rs) =
      (map Inr rs = map (\<lambda>l. load_entry pp pf (split l))
                      (filter (\<lambda>l. 9 < length (split l)) lines))) \<and>
   ((load_lines pp pf lines acc = Inr rs) =
      (\<exists>new. rs = acc @ new \<and>
         map Inr new = map (\<lambda>l. load_entry pp pf (split l))
                         (filter (\<lambda>l. 9 < length (split l)) lines)))"
  using load_results_Inr_iff [of pp pf lines rs] load_lines_Inr_iff [of pp pf lines acc rs]
  by (intro conjI)

section \<open>Claims about filtering\<close>

text \<open>
  These claims are about functions of \<^verbatim>\<open>common_plot\<close>. They are settled on the
  definitions modelled from the specification above.
\<close>

subsection \<open>C6: the bound of a \<^verbatim>\<open>max.\<close> condition\<close>

text \<open>
  C6: a record matches the single condition \<^verbatim>\<open>("max.x", b)\<close> exactly when its
  parameter \<^verbatim>\<open>x\<close> is a number that is at most the number \<open>b\<close>. The match fails,
  and nothing is raised, when the record has no parameter \<^verbatim>\<open>x\<close>, when the stored value
  is a string, and when the bound is a string. The first equation is for any inner key
  and any expected value, the second for the key \<^verbatim>\<open>x\<close> and a numeric bound.
\<close>

theorem max_bound:
  "(matches str r [(''max.'' @ x, bound)] =
      (case (params r x, bound) of (Some (Num v), Num b) \<Rightarrow> v \<le> b | _ \<Rightarrow> False)) \<and>
   (matches str r [(''max.x'', Num b)] = (\<exists>v. params r ''x'' = Some (Num v) \<and> v \<le> b))"
proof (intro conjI)
  have prefix: "take 4 (''max.'' @ x) = ''max.''" and inner: "drop 4 (''max.'' @ x) = x"
    by simp_all
  show "matches str r [(''max.'' @ x, bound)] =
      (case (params r x, bound) of (Some (Num v), Num b) \<Rightarrow> v \<le> b | _ \<Rightarrow> False)"
    unfolding matches.simps holds_def Let_def fst_conv snd_conv prefix inner by simp
next
  show "matches str r [(''max.x'', Num b)] = (\<exists>v. params r ''x'' = Some (Num v) \<and> v \<le> b)"
  proof (cases "params r ''x''")
    case None
    then show ?thesis by (simp add: holds_def)
  next
    case (Some stored)
    then show ?thesis by (cases stored) (simp_all add: holds_def)
  qed
qed

subsection \<open>C7: the bulk filter\<close>

text \<open>
  C7: \<^verbatim>\<open>filter_extra\<close> returns exactly the records that match the conditions, as
  a subsequence of the records in their original order; with no condition it returns
  every record.
\<close>

theorem filter_extra_correct:
  "filter_extra str rs cs = filter (\<lambda>r. matches str r cs) rs \<and>
   subseq (filter_extra str rs cs) rs \<and>
   filter_extra str rs [] = rs"
proof (intro conjI)
  show kept: "filter_extra str rs cs = filter (\<lambda>r. matches str r cs) rs"
    by (induction rs) simp_all
  show "subseq (filter_extra str rs cs) rs"
    unfolding kept by (rule subseq_filter_left)
  show "filter_extra str rs [] = rs"
    by (induction rs) simp_all
qed

end
